theory Spec2Isabelle
  imports Main
begin

section \<open>Data model of \<^verbatim>\<open>websocket-manager.js\<close>\<close>

text \<open>
  A query result is an arbitrary JSON value. Only equality of results matters for the
  properties below, so a small JSON datatype is enough.
\<close>

datatype json = JNull | JString string | JObject "(string \<times> json) list"

text \<open>\<^verbatim>\<open>type QueryResult = { id: string, result: object }\<close>\<close>

record QueryResult =
  id :: string
  result :: json

text \<open>
  \<^verbatim>\<open>type QueryResultsMap = Map<string, QueryResult>\<close>. A JavaScript \<^verbatim>\<open>Map\<close> iterates in
  insertion order, and \<^verbatim>\<open>set\<close> on a key that is present replaces the value where it
  stands. It is modelled as an association list with distinct keys.
\<close>

type_synonym ('k, 'v) Map = "('k \<times> 'v) list"

definition Map_has :: "'k \<Rightarrow> ('k, 'v) Map \<Rightarrow> bool" where
  "Map_has k m = (map_of m k \<noteq> None)"

fun Map_set :: "'k \<Rightarrow> 'v \<Rightarrow> ('k, 'v) Map \<Rightarrow> ('k, 'v) Map" where
  "Map_set k v [] = [(k, v)]"
| "Map_set k v ((k', v') # m) =
     (if k' = k then (k, v) # m else (k', v') # Map_set k v m)"

text \<open>\<^verbatim>\<open>new Map(entries)\<close>: the entries are set one after the other.\<close>

definition Map_new :: "('k \<times> 'v) list \<Rightarrow> ('k, 'v) Map" where
  "Map_new entries = fold (\<lambda>(k, v) m. Map_set k v m) entries []"

text \<open>
  The values of \<^verbatim>\<open>pageResults\<close> are \<^verbatim>\<open>QueryResult\<close> or \<^verbatim>\<open>undefined\<close> (the handler of
  \<^verbatim>\<open>registerPath\<close> stores whatever \<^verbatim>\<open>getCachedPageData\<close> returns), so they are options,
  \<open>None\<close> being \<^verbatim>\<open>undefined\<close>. \<^verbatim>\<open>Map.get\<close> gives \<^verbatim>\<open>undefined\<close> for a key that is absent
  and for a key that holds \<^verbatim>\<open>undefined\<close>.
\<close>

definition Map_get :: "'k \<Rightarrow> ('k, 'v option) Map \<Rightarrow> 'v option" where
  "Map_get k m = (case map_of m k of None \<Rightarrow> None | Some v \<Rightarrow> v)"

text \<open>The exceptions that the code can raise.\<close>

datatype exn =
    TypeError           \<comment> \<open>property access on \<^verbatim>\<open>undefined\<close>, or \<^verbatim>\<open>path.join\<close> of a non-string\<close>
  | ENOENT string       \<comment> \<open>\<^verbatim>\<open>fs.readFileSync\<close> of a file that does not exist\<close>
  | SyntaxError string  \<comment> \<open>\<^verbatim>\<open>JSON.parse\<close> of a file that is not JSON\<close>

subsection \<open>The surroundings: redux store and disk\<close>

record page =
  jsonName :: string

record staticQueryComponent =
  hash :: string
  jsonName :: string
  componentPath :: string

text \<open>A file either holds the JSON text of a value or something \<^verbatim>\<open>JSON.parse\<close> rejects.\<close>

datatype file_content = Parses json | Malformed

text \<open>
  What the module reads and never writes: the three slices of \<^verbatim>\<open>store.getState()\<close> it
  uses (\<^verbatim>\<open>staticQueryComponents\<close> is a \<^verbatim>\<open>Map\<close>, of which \<^verbatim>\<open>forEach\<close> visits the values in
  insertion order) and the files on disk.
\<close>

record env =
  pages :: "string \<rightharpoonup> page"
  jsonDataPaths :: "string \<rightharpoonup> string"
  staticQueryComponents :: "staticQueryComponent list"
  files :: "string \<rightharpoonup> file_content"

subsection \<open>Messages and the state of the manager\<close>

datatype message_type = staticQueryResult | pageQueryResult

record message =
  type :: message_type
  payload :: "QueryResult option"

type_synonym conn = nat

text \<open>
  The fields of \<^verbatim>\<open>WebsocketManager\<close>, followed by what lives outside the class but is
  changed by its methods:
  \<^item> \<open>websocket\<close> tells whether \<^verbatim>\<open>this.websocket\<close> has been created by \<^verbatim>\<open>init\<close>;
  \<^item> \<open>connected\<close>, \<open>rooms\<close> and \<open>sent\<close> are the state of the socket.io server: the
    sockets that are connected, the members of each room
    (\<^verbatim>\<open>this.websocket.sockets.adapter.rooms\<close>, where a room without members does not
    exist), and the calls of \<^verbatim>\<open>this.websocket.send\<close>, each with the sockets it was delivered
    to;
  \<^item> \<open>activePath\<close> is the variable \<^verbatim>\<open>let activePath\<close> in the closure of each connection
    (\<open>None\<close> is \<^verbatim>\<open>null\<close>);
  \<^item> \<open>console\<close> collects the lines of \<^verbatim>\<open>console.log\<close> and \<open>reads\<close> the paths given to
    \<^verbatim>\<open>fs.readFileSync\<close>.
  \<^verbatim>\<open>activePaths\<close> is a \<^verbatim>\<open>Set\<close> whose \<^verbatim>\<open>delete\<close> is also called with \<^verbatim>\<open>null\<close>, hence a set
  of optional strings.
\<close>

record world =
  isInitialised :: bool
  activePaths :: "string option set"
  pageResults :: "(string, QueryResult option) Map"
  staticQueryResults :: "(string, QueryResult) Map"
  programDir :: "string option"
  websocket :: bool
  connected :: "conn set"
  rooms :: "string \<Rightarrow> conn set"
  sent :: "(conn set \<times> message) list"
  activePath :: "conn \<Rightarrow> string option"
  console :: "string list"
  reads :: "string list"

text \<open>The state after \<^verbatim>\<open>new WebsocketManager()\<close>.\<close>

definition constructor :: world where
  "constructor =
     \<lparr> isInitialised = False, activePaths = {}, pageResults = [], staticQueryResults = [],
       programDir = None, websocket = False, connected = {}, rooms = (\<lambda>_. {}), sent = [],
       activePath = (\<lambda>_. None), console = [], reads = [] \<rparr>"

section \<open>The functions of the module\<close>

subsection \<open>Reading cached results\<close>

text \<open>
  \<^verbatim>\<open>path.join\<close> puts the separator between its arguments (it also normalises the
  result, which no property below depends on).
\<close>

fun path_join :: "string list \<Rightarrow> string" where
  "path_join [] = []"
| "path_join [x] = x"
| "path_join (x # y # zs) = x @ ''/'' @ path_join (y # zs)"

text \<open>The \<^verbatim>\<open>filePath\<close> of \<^verbatim>\<open>readCachedResults\<close>.\<close>

definition filePath :: "string \<Rightarrow> string \<Rightarrow> string" where
  "filePath directory dataFileName =
     path_join [directory, ''public'', ''static'', ''d'', dataFileName @ ''.json'']"

text \<open>
  \<^verbatim>\<open>readCachedResults\<close>: \<^verbatim>\<open>path.join\<close> raises \<^verbatim>\<open>TypeError\<close> on a directory that is
  \<^verbatim>\<open>undefined\<close>, \<^verbatim>\<open>fs.readFileSync\<close> raises on a file that does not exist and
  \<^verbatim>\<open>JSON.parse\<close> on a content that is not JSON.
\<close>

definition readCachedResults ::
  "env \<Rightarrow> string \<Rightarrow> string option \<Rightarrow> world \<Rightarrow> (exn + json) \<times> world" where
  "readCachedResults e dataFileName directory w =
     (case directory of
        None \<Rightarrow> (Inl TypeError, w)
      | Some dir \<Rightarrow>
          let w' = w\<lparr>reads := reads w @ [filePath dir dataFileName]\<rparr>
          in (case files e (filePath dir dataFileName) of
                None \<Rightarrow> (Inl (ENOENT (filePath dir dataFileName)), w')
              | Some Malformed \<Rightarrow> (Inl (SyntaxError (filePath dir dataFileName)), w')
              | Some (Parses v) \<Rightarrow> (Inr v, w')))"

definition console_log :: "string \<Rightarrow> world \<Rightarrow> world" where
  "console_log line w = w\<lparr>console := console w @ [line]\<rparr>"

definition page_error :: "string \<Rightarrow> string" where
  \<open>page_error pagePath =
     ''Error loading a result for the page query in "'' @ pagePath @
     ''". Query was not run and no cached result was found.''\<close>

definition static_error :: "string \<Rightarrow> string" where
  \<open>static_error component =
     ''Error loading a result for the StaticQuery in "'' @ component @
     ''". Query was not run and no cached result was found.''\<close>

text \<open>
  \<^verbatim>\<open>getCachedPageData\<close>: \<^verbatim>\<open>pages.get(pagePath)\<close> is \<^verbatim>\<open>undefined\<close> for a path without a page,
  and then \<^verbatim>\<open>page.jsonName\<close> raises \<^verbatim>\<open>TypeError\<close>. The value returned is \<^verbatim>\<open>undefined\<close>
  (\<open>None\<close>) when the page has no data path.
\<close>

definition getCachedPageData ::
  "env \<Rightarrow> string \<Rightarrow> string option \<Rightarrow> world \<Rightarrow> (exn + QueryResult option) \<times> world" where
  "getCachedPageData e pagePath directory w =
     (case pages e pagePath of
        None \<Rightarrow> (Inl TypeError, w)
      | Some page \<Rightarrow>
          (case jsonDataPaths e (page.jsonName page) of
             None \<Rightarrow> (Inr None, console_log (page_error pagePath) w)
           | Some dataPath \<Rightarrow>
               (case readCachedResults e dataPath directory w of
                  (Inl x, w') \<Rightarrow> (Inl x, w')
                | (Inr r, w') \<Rightarrow> (Inr (Some \<lparr>id = pagePath, result = r\<rparr>), w'))))"

text \<open>
  \<^verbatim>\<open>getCachedStaticQueryResults\<close>: the body of \<^verbatim>\<open>forEach\<close> is run on the components in
  order, \<open>cached\<close> being \<^verbatim>\<open>cachedStaticQueryResults\<close>. An exception of
  \<^verbatim>\<open>readCachedResults\<close> leaves the loop and the function, since nothing catches it.
\<close>

fun forEach_staticQueryComponent ::
  "env \<Rightarrow> (string, QueryResult) Map \<Rightarrow> string option \<Rightarrow> staticQueryComponent list \<Rightarrow>
   (string, QueryResult) Map \<Rightarrow> world \<Rightarrow> (exn + (string, QueryResult) Map) \<times> world" where
  "forEach_staticQueryComponent e resultsMap directory [] cached w = (Inr cached, w)"
| "forEach_staticQueryComponent e resultsMap directory (c # cs) cached w =
     (if Map_has (hash c) resultsMap
      then forEach_staticQueryComponent e resultsMap directory cs cached w
      else
        (case jsonDataPaths e (staticQueryComponent.jsonName c) of
           None \<Rightarrow>
             forEach_staticQueryComponent e resultsMap directory cs cached
               (console_log (static_error (componentPath c)) w)
         | Some dataPath \<Rightarrow>
             (case readCachedResults e dataPath directory w of
                (Inl x, w') \<Rightarrow> (Inl x, w')
              | (Inr r, w') \<Rightarrow>
                  forEach_staticQueryComponent e resultsMap directory cs
                    (Map_set (hash c) \<lparr>id = hash c, result = r\<rparr> cached) w')))"

definition getCachedStaticQueryResults ::
  "env \<Rightarrow> (string, QueryResult) Map \<Rightarrow> string option \<Rightarrow> world \<Rightarrow>
   (exn + (string, QueryResult) Map) \<times> world" where
  "getCachedStaticQueryResults e resultsMap directory w =
     forEach_staticQueryComponent e resultsMap directory (staticQueryComponents e) [] w"

text \<open>
  \<^verbatim>\<open>getRoomNameFromPath\<close>: the template \<^verbatim>\<open>`path-${path}`\<close> turns \<^verbatim>\<open>null\<close> into the text
  \<^verbatim>\<open>null\<close>.
\<close>

fun getRoomNameFromPath :: "string option \<Rightarrow> string" where
  "getRoomNameFromPath None = ''path-null''"
| "getRoomNameFromPath (Some path) = ''path-'' @ path"

subsection \<open>The socket.io server\<close>

text \<open>
  \<^verbatim>\<open>this.websocket.send(msg)\<close> is a send on the server object: socket.io delivers it to
  every socket that is connected at that time.
\<close>

definition websocket_send :: "message \<Rightarrow> world \<Rightarrow> world" where
  "websocket_send msg w = w\<lparr>sent := sent w @ [(connected w, msg)]\<rparr>"

text \<open>What a connection has received: the messages of the sends delivered to it.\<close>

definition inbox :: "conn \<Rightarrow> world \<Rightarrow> message list" where
  "inbox c w = map snd (filter (\<lambda>(receivers, msg). c \<in> receivers) (sent w))"

text \<open>\<^verbatim>\<open>s.join(room)\<close> and \<^verbatim>\<open>s.leave(room)\<close> for the socket \<open>s\<close> of connection \<open>c\<close>.\<close>

definition join :: "conn \<Rightarrow> string \<Rightarrow> world \<Rightarrow> world" where
  "join c room w = w\<lparr>rooms := (rooms w)(room := insert c (rooms w room))\<rparr>"

definition leave :: "conn \<Rightarrow> string \<Rightarrow> world \<Rightarrow> world" where
  "leave c room w = w\<lparr>rooms := (rooms w)(room := rooms w room - {c})\<rparr>"

text \<open>
  What socket.io does itself around the two events of a socket's life: a new socket is
  connected before the \<^verbatim>\<open>connection\<close> event is raised, and a closing socket has left all
  its rooms and is no longer connected when its \<^verbatim>\<open>disconnect\<close> event is raised. (Each
  socket is also in a room named by its own id, which is no room of a path and is left
  out.)
\<close>

definition socket_open :: "conn \<Rightarrow> world \<Rightarrow> world" where
  "socket_open c w = w\<lparr>connected := insert c (connected w)\<rparr>"

definition socket_close :: "conn \<Rightarrow> world \<Rightarrow> world" where
  "socket_close c w =
     w\<lparr>connected := connected w - {c}, rooms := (\<lambda>room. rooms w room - {c})\<rparr>"

subsection \<open>The methods of \<^verbatim>\<open>WebsocketManager\<close> and the handlers of a connection\<close>

text \<open>
  \<^verbatim>\<open>init\<close>: the merge \<^verbatim>\<open>new Map([...this.staticQueryResults, ...cachedStaticQueryResults])\<close>
  is reached only when \<^verbatim>\<open>getCachedStaticQueryResults\<close> returns. The first component of the
  result is the exception raised, if any.
\<close>

definition init :: "env \<Rightarrow> string \<Rightarrow> world \<Rightarrow> exn option \<times> world" where
  "init e directory w =
     (let w1 = w\<lparr>programDir := Some directory\<rparr> in
      case getCachedStaticQueryResults e (staticQueryResults w1) (programDir w1) w1 of
        (Inl x, w2) \<Rightarrow> (Some x, w2)
      | (Inr cachedStaticQueryResults, w2) \<Rightarrow>
          (None,
           w2\<lparr>staticQueryResults := Map_new (staticQueryResults w2 @ cachedStaticQueryResults),
              websocket := True,
              isInitialised := True\<rparr>))"

text \<open>
  The handler of \<^verbatim>\<open>connection\<close>, up to the definition of \<^verbatim>\<open>leaveRoom\<close>: the two \<^verbatim>\<open>forEach\<close>
  loops send one message for each entry.
\<close>

definition connection :: "conn \<Rightarrow> world \<Rightarrow> world" where
  "connection c w =
     (let w1 = w\<lparr>activePath := (activePath w)(c := None)\<rparr>;
          w2 = fold (\<lambda>(k, r). websocket_send \<lparr>type = staticQueryResult, payload = Some r\<rparr>)
                 (staticQueryResults w1) w1
      in fold (\<lambda>(k, r). websocket_send \<lparr>type = pageQueryResult, payload = r\<rparr>)
           (pageResults w2) w2)"

definition leaveRoom :: "conn \<Rightarrow> string option \<Rightarrow> world \<Rightarrow> world" where
  "leaveRoom c path w =
     (let w1 = leave c (getRoomNameFromPath path) w;
          leftRoom = rooms w1 (getRoomNameFromPath path)
      in if leftRoom = {} then w1\<lparr>activePaths := activePaths w1 - {path}\<rparr> else w1)"

definition registerPath :: "env \<Rightarrow> conn \<Rightarrow> string \<Rightarrow> world \<Rightarrow> exn option \<times> world" where
  "registerPath e c path w =
     (let w1 = join c (getRoomNameFromPath (Some path)) w;
          w2 = w1\<lparr>activePath := (activePath w1)(c := Some path)\<rparr>;
          w3 = w2\<lparr>activePaths := insert (Some path) (activePaths w2)\<rparr>;
          send = (\<lambda>w. websocket_send
                         \<lparr>type = pageQueryResult, payload = Map_get path (pageResults w)\<rparr> w)
      in if \<not> Map_has path (pageResults w3)
         then (case getCachedPageData e path (programDir w3) w3 of
                 (Inl x, w4) \<Rightarrow> (Some x, w4)
               | (Inr r, w4) \<Rightarrow>
                   (None, send (w4\<lparr>pageResults := Map_set path r (pageResults w4)\<rparr>)))
         else (None, send w3))"

definition disconnect :: "conn \<Rightarrow> world \<Rightarrow> world" where
  "disconnect c w = leaveRoom c (activePath w c) w"

definition unregisterPath :: "conn \<Rightarrow> string \<Rightarrow> world \<Rightarrow> world" where
  "unregisterPath c path w = leaveRoom c (Some path) w"

definition emitStaticQueryData :: "QueryResult \<Rightarrow> world \<Rightarrow> world" where
  "emitStaticQueryData data w =
     (let w1 = w\<lparr>staticQueryResults := Map_set (id data) data (staticQueryResults w)\<rparr>
      in if isInitialised w1
         then websocket_send \<lparr>type = staticQueryResult, payload = Some data\<rparr> w1
         else w1)"

definition emitPageData :: "QueryResult \<Rightarrow> world \<Rightarrow> world" where
  "emitPageData data w =
     (let w1 = (if isInitialised w
                then websocket_send \<lparr>type = pageQueryResult, payload = Some data\<rparr> w
                else w)
      in w1\<lparr>pageResults := Map_set (id data) (Some data) (pageResults w1)\<rparr>)"

subsection \<open>Events\<close>

text \<open>
  What can happen to the manager: the calls of its public methods by the build and the
  events of the sockets. An event of a socket is handled only once \<^verbatim>\<open>init\<close> has installed
  the handlers; a socket connects once, and sends its events while it is connected.
\<close>

datatype event =
    Init string
  | EmitStaticQueryData QueryResult
  | EmitPageData QueryResult
  | Connection conn
  | RegisterPath conn string
  | UnregisterPath conn string
  | Disconnect conn

fun enabled :: "event \<Rightarrow> world \<Rightarrow> bool" where
  "enabled (Init directory) w = (\<not> isInitialised w)"
| "enabled (EmitStaticQueryData data) w = True"
| "enabled (EmitPageData data) w = True"
| "enabled (Connection c) w = (websocket w \<and> c \<notin> connected w)"
| "enabled (RegisterPath c path) w = (websocket w \<and> c \<in> connected w)"
| "enabled (UnregisterPath c path) w = (websocket w \<and> c \<in> connected w)"
| "enabled (Disconnect c) w = (websocket w \<and> c \<in> connected w)"

fun handle :: "env \<Rightarrow> event \<Rightarrow> world \<Rightarrow> exn option \<times> world" where
  "handle e (Init directory) w = init e directory w"
| "handle e (EmitStaticQueryData data) w = (None, emitStaticQueryData data w)"
| "handle e (EmitPageData data) w = (None, emitPageData data w)"
| "handle e (Connection c) w = (None, connection c (socket_open c w))"
| "handle e (RegisterPath c path) w = registerPath e c path w"
| "handle e (UnregisterPath c path) w = (None, unregisterPath c path w)"
| "handle e (Disconnect c) w = (None, disconnect c (socket_close c w))"

text \<open>
  A run handles the events in order. It ends at the first exception, which nothing in
  the module catches, and a list with an event that cannot happen in the state reached
  is no run.
\<close>

datatype outcome = is_Finished: Finished (final: world) | Crashed exn world | Impossible

fun run :: "env \<Rightarrow> event list \<Rightarrow> world \<Rightarrow> outcome" where
  "run e [] w = Finished w"
| "run e (ev # evs) w =
     (if enabled ev w
      then (case handle e ev w of
              (Some x, w') \<Rightarrow> Crashed x w'
            | (None, w') \<Rightarrow> run e evs w')
      else Impossible)"

text \<open>The states the manager can be in: those a run without exception leads to.\<close>

inductive reachable :: "env \<Rightarrow> world \<Rightarrow> bool" for e :: env where
  start: "reachable e constructor"
| step: "reachable e w \<Longrightarrow> enabled ev w \<Longrightarrow> handle e ev w = (None, w') \<Longrightarrow> reachable e w'"

subsection \<open>Frame of the functions that only read\<close>

text \<open>Two states that differ at most in the console and in the list of files read.\<close>

definition same_core :: "world \<Rightarrow> world \<Rightarrow> bool" where
  "same_core w' w \<longleftrightarrow>
     isInitialised w' = isInitialised w \<and> activePaths w' = activePaths w \<and>
     pageResults w' = pageResults w \<and> staticQueryResults w' = staticQueryResults w \<and>
     programDir w' = programDir w \<and> websocket w' = websocket w \<and>
     connected w' = connected w \<and> rooms w' = rooms w \<and> sent w' = sent w \<and>
     activePath w' = activePath w"

subsection \<open>A site to run the manager on\<close>

text \<open>
  The project lives in \<^verbatim>\<open>/site\<close>. The page \<^verbatim>\<open>/about\<close> has the artifact \<^verbatim>\<open>abc123\<close> with
  content \<^verbatim>\<open>{"data":{"title":"About"}}\<close> and the page \<^verbatim>\<open>/blog\<close> the artifact \<^verbatim>\<open>def456\<close>;
  the page \<^verbatim>\<open>/draft\<close> has no data path, its query never ran; \<^verbatim>\<open>/missing\<close> is no page.
  Of the three components with a static query, the second has no data path.
\<close>

definition about_result :: json where
  "about_result = JObject [(''data'', JObject [(''title'', JString ''About'')])]"

definition site :: env where
  "site =
     \<lparr> pages = [''/about'' \<mapsto> \<lparr>page.jsonName = ''about''\<rparr>,
                ''/blog'' \<mapsto> \<lparr>page.jsonName = ''blog''\<rparr>,
                ''/draft'' \<mapsto> \<lparr>page.jsonName = ''draft''\<rparr>],
       jsonDataPaths = [''about'' \<mapsto> ''abc123'', ''blog'' \<mapsto> ''def456'',
                        ''sq-header'' \<mapsto> ''h1'', ''sq-footer'' \<mapsto> ''f1''],
       staticQueryComponents =
         [\<lparr>hash = ''hash1'', jsonName = ''sq-header'', componentPath = ''/src/header.js''\<rparr>,
          \<lparr>hash = ''hash2'', jsonName = ''sq-nav'', componentPath = ''/src/nav.js''\<rparr>,
          \<lparr>hash = ''hash3'', jsonName = ''sq-footer'', componentPath = ''/src/footer.js''\<rparr>],
       files = [''/site/public/static/d/abc123.json'' \<mapsto> Parses about_result,
                ''/site/public/static/d/def456.json'' \<mapsto> Parses (JString ''blog''),
                ''/site/public/static/d/h1.json'' \<mapsto> Parses (JString ''header''),
                ''/site/public/static/d/f1.json'' \<mapsto> Parses (JString ''footer'')] \<rparr>"

text \<open>The same site after the artifact of the first component has been deleted.\<close>

definition site_without_h1 :: env where
  "site_without_h1 = site\<lparr>files := (files site)(''/site/public/static/d/h1.json'' := None)\<rparr>"

text \<open>The manager of the site, initialised, with one client connected.\<close>

definition one_client :: world where
  "one_client = final (run site [Init ''/site'', Connection 0] constructor)"

text \<open>The same with a second client; the first one has registered \<^verbatim>\<open>/about\<close>.\<close>

definition two_clients :: world where
  "two_clients =
     final (run site [Init ''/site'', Connection 0, Connection 1, RegisterPath 0 ''/about'']
              constructor)"

text \<open>
  A manager that has been given a fresh result for the first component before \<^verbatim>\<open>init\<close>.
\<close>

definition fresh_header :: world where
  "fresh_header =
     emitStaticQueryData \<lparr>id = ''hash1'', result = JString ''fresh''\<rparr> constructor"

text \<open>
  One client registers \<^verbatim>\<open>/about\<close>, then \<^verbatim>\<open>/blog\<close> without unregistering, and closes.
\<close>

definition leak_run :: outcome where
  "leak_run =
     run site [Init ''/site'', Connection 0, RegisterPath 0 ''/about'',
               RegisterPath 0 ''/blog'', Disconnect 0] constructor"

text \<open>The client of \<open>one_client\<close> after \<^verbatim>\<open>registerPath\<close> of \<^verbatim>\<open>/about\<close> and then of \<^verbatim>\<open>/blog\<close>.\<close>

definition about_then_blog :: world where
  "about_then_blog =
     snd (registerPath site 0 ''/blog'' (snd (registerPath site 0 ''/about'' one_client)))"

text \<open>The messages with the cached results of the first and the third component.\<close>

definition header_message :: message where
  "header_message =
     \<lparr>type = staticQueryResult, payload = Some \<lparr>id = ''hash1'', result = JString ''header''\<rparr>\<rparr>"

definition footer_message :: message where
  "footer_message =
     \<lparr>type = staticQueryResult, payload = Some \<lparr>id = ''hash3'', result = JString ''footer''\<rparr>\<rparr>"

section \<open>Properties\<close>

subsection \<open>The \<^verbatim>\<open>Map\<close> operations\<close>

lemma map_of_Map_set: "map_of (Map_set k v m) = (map_of m)(k \<mapsto> v)"
  by (induction m) (auto simp: fun_upd_twist)

lemma Map_has_Map_set: "Map_has k' (Map_set k v m) = (k' = k \<or> Map_has k' m)"
  by (simp add: Map_has_def map_of_Map_set)

lemma Map_get_Map_set: "Map_get k' (Map_set k v m) = (if k' = k then v else Map_get k' m)"
  by (simp add: Map_get_def map_of_Map_set)

lemma keys_Map_set: "fst ` set (Map_set k v m) = insert k (fst ` set m)"
proof -
  have "dom (map_of (Map_set k v m)) = insert k (dom (map_of m))"
    by (simp add: map_of_Map_set)
  then show ?thesis
    by (simp add: dom_map_of_conv_image_fst)
qed

lemma distinct_Map_set: "distinct (map fst m) \<Longrightarrow> distinct (map fst (Map_set k v m))"
  by (induction m) (auto simp: keys_Map_set)

lemma map_of_fold_Map_set:
  "map_of (fold (\<lambda>(k, v) m. Map_set k v m) entries m) = map_of m ++ map_of (rev entries)"
  by (induction entries arbitrary: m) (auto simp: map_of_Map_set map_add_upd_left)

lemma map_of_Map_new: "map_of (Map_new entries) = map_of (rev entries)"
  by (simp add: Map_new_def map_of_fold_Map_set)

lemma distinct_fold_Map_set:
  "distinct (map fst m) \<Longrightarrow> distinct (map fst (fold (\<lambda>(k, v) m. Map_set k v m) entries m))"
  by (induction entries arbitrary: m) (auto simp: distinct_Map_set)

lemma distinct_Map_new: "distinct (map fst (Map_new entries))"
  by (simp add: Map_new_def distinct_fold_Map_set)

lemma map_of_rev_distinct:
  assumes "distinct (map fst m)"
  shows "map_of (rev m) = map_of m"
proof -
  have "distinct (map fst (rev m))"
    using assms by (simp add: rev_map [symmetric])
  from map_of_inject_set [OF this assms] show ?thesis
    by simp
qed

subsection \<open>Unfolding the handlers, and the example site\<close>

lemmas handler_defs = websocket_send_def join_def leave_def socket_open_def socket_close_def
  leaveRoom_def disconnect_def unregisterPath_def console_log_def

lemmas run_defs = init_def getCachedStaticQueryResults_def readCachedResults_def
  getCachedPageData_def registerPath_def connection_def emitPageData_def
  emitStaticQueryData_def filePath_def Map_has_def Map_get_def Map_new_def
  constructor_def site_def site_without_h1_def about_result_def static_error_def
  page_error_def

lemma one_client_fields:
  "isInitialised one_client" "websocket one_client" "connected one_client = {0}"
  "programDir one_client = Some ''/site''" "pageResults one_client = []"
  "activePath one_client 0 = None" "activePaths one_client = {}"
  "reads one_client = [''/site/public/static/d/h1.json'', ''/site/public/static/d/f1.json'']"
  by (simp_all add: one_client_def run_defs handler_defs Let_def)

lemma two_clients_fields:
  "isInitialised two_clients" "websocket two_clients" "connected two_clients = {1, 0}"
  "programDir two_clients = Some ''/site''"
  "pageResults two_clients = [(''/about'', Some \<lparr>id = ''/about'', result = about_result\<rparr>)]"
  "activePath two_clients 0 = Some ''/about''" "activePath two_clients 1 = None"
  "activePaths two_clients = {Some ''/about''}"
  "rooms two_clients ''path-/about'' = {0}"
  by (simp_all add: two_clients_def run_defs handler_defs Let_def)

subsection \<open>What the functions leave unchanged\<close>

lemma same_core_refl: "same_core w w"
  by (simp add: same_core_def)

lemma same_core_trans: "same_core w2 w1 \<Longrightarrow> same_core w1 w \<Longrightarrow> same_core w2 w"
  by (simp add: same_core_def)

lemma readCachedResults_Some:
  "readCachedResults e dp (Some dir) w =
     (case files e (filePath dir dp) of
        Some (Parses v) \<Rightarrow> Inr v
      | Some Malformed \<Rightarrow> Inl (SyntaxError (filePath dir dp))
      | None \<Rightarrow> Inl (ENOENT (filePath dir dp)),
      w\<lparr>reads := reads w @ [filePath dir dp]\<rparr>)"
  by (simp add: readCachedResults_def Let_def split: option.splits file_content.splits)

lemma readCachedResults_core:
  "readCachedResults e dp directory w = (y, w') \<Longrightarrow> same_core w' w"
  by (auto simp: readCachedResults_def Let_def same_core_def
      split: option.splits file_content.splits)

lemma getCachedPageData_core:
  "getCachedPageData e p directory w = (y, w') \<Longrightarrow> same_core w' w"
  by (auto simp: getCachedPageData_def console_log_def same_core_refl
      dest: readCachedResults_core split: option.splits prod.splits sum.splits)
     (simp add: same_core_def)

lemma forEach_core:
  "forEach_staticQueryComponent e resultsMap directory cs cached w = (r, w') \<Longrightarrow>
   same_core w' w"
proof (induction cs arbitrary: cached w)
  case Nil
  then show ?case by (simp add: same_core_def)
next
  case (Cons c cs)
  show ?case
  proof (cases "Map_has (hash c) resultsMap")
    case True
    with Cons show ?thesis by simp
  next
    case False
    show ?thesis
    proof (cases "jsonDataPaths e (staticQueryComponent.jsonName c)")
      case None
      with False Cons.prems
      have "forEach_staticQueryComponent e resultsMap directory cs cached
              (console_log (static_error (componentPath c)) w) = (r, w')" by simp
      from Cons.IH [OF this] show ?thesis by (simp add: console_log_def same_core_def)
    next
      case (Some dp)
      obtain y w1 where rd: "readCachedResults e dp directory w = (y, w1)"
        by (cases "readCachedResults e dp directory w")
      note w1 = readCachedResults_core [OF rd]
      show ?thesis
      proof (cases y)
        case (Inl x)
        with False Some rd Cons.prems have "w' = w1" by simp
        with w1 show ?thesis by simp
      next
        case (Inr v)
        with False Some rd Cons.prems
        have "forEach_staticQueryComponent e resultsMap directory cs
                (Map_set (hash c) \<lparr>id = hash c, result = v\<rparr> cached) w1 = (r, w')" by simp
        from Cons.IH [OF this] w1 show ?thesis by (rule same_core_trans)
      qed
    qed
  qed
qed

lemma init_frame:
  assumes "init e directory w = (x, w')"
  shows "activePaths w' = activePaths w \<and> pageResults w' = pageResults w \<and>
         connected w' = connected w \<and> rooms w' = rooms w \<and> sent w' = sent w \<and>
         activePath w' = activePath w \<and> programDir w' = Some directory"
proof -
  obtain y w2 where g: "getCachedStaticQueryResults e (staticQueryResults w) (Some directory)
      (w\<lparr>programDir := Some directory\<rparr>) = (y, w2)"
    by (cases "getCachedStaticQueryResults e (staticQueryResults w) (Some directory)
      (w\<lparr>programDir := Some directory\<rparr>)")
  then have "same_core w2 (w\<lparr>programDir := Some directory\<rparr>)"
    unfolding getCachedStaticQueryResults_def by (rule forEach_core)
  with assms g show ?thesis
    by (cases y) (auto simp: init_def Let_def same_core_def)
qed

lemma registerPath_frame:
  assumes "registerPath e c p w = (x, w')"
  shows "rooms w' = (rooms w)(getRoomNameFromPath (Some p) :=
           insert c (rooms w (getRoomNameFromPath (Some p)))) \<and>
         activePath w' = (activePath w)(c := Some p) \<and>
         activePaths w' = insert (Some p) (activePaths w) \<and>
         connected w' = connected w \<and> websocket w' = websocket w \<and>
         isInitialised w' = isInitialised w \<and>
         staticQueryResults w' = staticQueryResults w \<and> programDir w' = programDir w"
proof (cases "Map_has p (pageResults w)")
  case True
  with assms show ?thesis
    by (auto simp: registerPath_def handler_defs Let_def)
next
  case False
  let ?w3 = "w\<lparr>rooms := (rooms w)(getRoomNameFromPath (Some p) :=
                 insert c (rooms w (getRoomNameFromPath (Some p)))),
               activePath := (activePath w)(c := Some p),
               activePaths := insert (Some p) (activePaths w)\<rparr>"
  obtain y w4 where g: "getCachedPageData e p (programDir w) ?w3 = (y, w4)"
    by (cases "getCachedPageData e p (programDir w) ?w3")
  from getCachedPageData_core [OF g] have "same_core w4 ?w3" .
  with assms False g show ?thesis
    by (cases y) (auto simp: registerPath_def handler_defs Let_def same_core_def)
qed

lemma registerPath_sent:
  assumes "registerPath e c p w = (x, w')"
  shows "sent w' = sent w @ (if x = None
     then [(connected w, \<lparr>type = pageQueryResult, payload = Map_get p (pageResults w')\<rparr>)]
     else [])"
proof (cases "Map_has p (pageResults w)")
  case True
  with assms show ?thesis
    by (auto simp: registerPath_def handler_defs Let_def)
next
  case False
  let ?w3 = "w\<lparr>rooms := (rooms w)(getRoomNameFromPath (Some p) :=
                 insert c (rooms w (getRoomNameFromPath (Some p)))),
               activePath := (activePath w)(c := Some p),
               activePaths := insert (Some p) (activePaths w)\<rparr>"
  obtain y w4 where g: "getCachedPageData e p (programDir w) ?w3 = (y, w4)"
    by (cases "getCachedPageData e p (programDir w) ?w3")
  from getCachedPageData_core [OF g] have "same_core w4 ?w3" .
  with assms False g show ?thesis
    by (cases y) (auto simp: registerPath_def handler_defs Let_def same_core_def)
qed

lemma registerPath_cached:
  "Map_has p (pageResults w) \<Longrightarrow>
   \<exists>w'. registerPath e c p w = (None, w') \<and> reads w' = reads w"
  by (simp add: registerPath_def handler_defs Let_def)

lemma getRoomNameFromPath_Some_inject [simp]:
  "getRoomNameFromPath (Some p) = getRoomNameFromPath (Some q) \<longleftrightarrow> p = q"
  by simp

subsection \<open>Rooms and active paths in the states that can be reached\<close>

lemma fold_websocket_send:
  "fold (\<lambda>(k, r). websocket_send (f r)) xs w =
     w\<lparr>sent := sent w @ map (\<lambda>(k, r). (connected w, f r)) xs\<rparr>"
  by (induction xs arbitrary: w) (auto simp: websocket_send_def)

lemma connection_eq:
  "connection c w =
     w\<lparr>activePath := (activePath w)(c := None),
       sent := sent w @
         map (\<lambda>(k, r). (connected w, \<lparr>type = staticQueryResult, payload = Some r\<rparr>))
           (staticQueryResults w) @
         map (\<lambda>(k, r). (connected w, \<lparr>type = pageQueryResult, payload = r\<rparr>))
           (pageResults w)\<rparr>"
  by (simp add: connection_def Let_def fold_websocket_send)

lemma connection_sent:
  "sent (connection c (socket_open c w)) =
     sent w @
     map (\<lambda>(k, r). (insert c (connected w), \<lparr>type = staticQueryResult, payload = Some r\<rparr>))
       (staticQueryResults w) @
     map (\<lambda>(k, r). (insert c (connected w), \<lparr>type = pageQueryResult, payload = r\<rparr>))
       (pageResults w)"
  by (simp add: connection_eq socket_open_def)

lemma inbox_delivered:
  "map snd (filter (\<lambda>(receivers, msg). c \<in> receivers) (map (\<lambda>(k, r). (insert c A, f r)) xs)) =
   map (\<lambda>(k, r). f r) xs"
  by (induction xs) auto

lemma inbox_connection:
  "inbox c (connection c (socket_open c w)) =
     inbox c w @
     map (\<lambda>(k, r). \<lparr>type = staticQueryResult, payload = Some r\<rparr>) (staticQueryResults w) @
     map (\<lambda>(k, r). \<lparr>type = pageQueryResult, payload = r\<rparr>) (pageResults w)"
  unfolding inbox_def connection_sent
  by (simp add: inbox_delivered)

lemma joined_active:
  "reachable e w \<Longrightarrow> c \<in> rooms w (getRoomNameFromPath (Some p)) \<Longrightarrow> Some p \<in> activePaths w"
proof (induction arbitrary: c p rule: reachable.induct)
  case start
  then show ?case by (simp add: constructor_def)
next
  case (step w ev w')
  show ?case
  proof (cases ev)
    case (Init directory)
    with step.hyps(3) have "init e directory w = (None, w')" by simp
    from init_frame [OF this] step.prems step.IH show ?thesis by simp
  next
    case (EmitStaticQueryData d)
    with step show ?thesis
      by (auto simp: emitStaticQueryData_def handler_defs Let_def split: if_splits)
  next
    case (EmitPageData d)
    with step show ?thesis
      by (auto simp: emitPageData_def handler_defs Let_def split: if_splits)
  next
    case (Connection c')
    with step.hyps(3) have "rooms w' = rooms w" "activePaths w' = activePaths w"
      by (auto simp: connection_eq socket_open_def)
    with step.prems step.IH show ?thesis by simp
  next
    case (RegisterPath c' q)
    with step.hyps(3) have "registerPath e c' q w = (None, w')" by simp
    from registerPath_frame [OF this] step.prems step.IH [of c p] show ?thesis
      by (auto split: if_splits)
  next
    case (UnregisterPath c' q)
    with step.hyps(3) step.prems step.IH [of c p] show ?thesis
      by (auto simp: handler_defs Let_def split: if_splits)
  next
    case (Disconnect c')
    with step.hyps(3) step.prems step.IH [of c p] show ?thesis
      by (cases "activePath w c'") (auto simp: handler_defs Let_def split: if_splits)
  qed
qed

lemma run_reachable:
  "reachable e w \<Longrightarrow> run e evs w = Finished w' \<Longrightarrow> reachable e w'"
proof (induction evs arbitrary: w)
  case Nil
  then show ?case by simp
next
  case (Cons ev evs)
  from Cons.prems(2) have en: "enabled ev w"
    by (auto split: if_splits)
  obtain x w1 where h: "handle e ev w = (x, w1)"
    by (cases "handle e ev w")
  with Cons.prems(2) en have "x = None" and r: "run e evs w1 = Finished w'"
    by (auto split: option.splits)
  with h en Cons.prems(1) have "reachable e w1"
    by (auto intro: reachable.step)
  from Cons.IH [OF this r] show ?case .
qed

text \<open>
  Claim C4, amended. In every state the manager can reach, a path with a connected client
  in its room is in \<^verbatim>\<open>activePaths\<close>; and after \<^verbatim>\<open>registerPath(p)\<close> then
  \<^verbatim>\<open>unregisterPath(p)\<close> of a connection, \<^verbatim>\<open>activePaths\<close> contains \<open>p\<close> exactly when
  another connection is in the room of \<open>p\<close>.
\<close>

theorem joined_path_is_active:
  assumes "reachable e w"
  shows "(\<forall>c p. c \<in> connected w \<and> c \<in> rooms w (getRoomNameFromPath (Some p)) \<longrightarrow>
            Some p \<in> activePaths w) \<and>
         (\<forall>c p w1. registerPath e c p w = (None, w1) \<longrightarrow>
            (Some p \<in> activePaths (unregisterPath c p w1)) =
            (rooms w (getRoomNameFromPath (Some p)) - {c} \<noteq> {}))"
proof -
  have "(Some p \<in> activePaths (unregisterPath c p w1)) =
        (rooms w (getRoomNameFromPath (Some p)) - {c} \<noteq> {})"
    if "registerPath e c p w = (None, w1)" for c p w1
    using registerPath_frame [OF that]
    by (auto simp: handler_defs Let_def)
  with joined_active [OF assms] show ?thesis by blast
qed

lemma leak_run_fields:
  "is_Finished leak_run"
  "activePaths (final leak_run) = {Some ''/about''}"
  "connected (final leak_run) = {}"
  by (simp_all add: leak_run_def run_defs handler_defs Let_def)

text \<open>
  Claim C4 as stated fails from \<^verbatim>\<open>activePaths\<close> to the rooms: after the run of
  \<open>leak_run\<close>, which the manager can make, \<^verbatim>\<open>/about\<close> is in \<^verbatim>\<open>activePaths\<close> and no
  client is connected at all.
\<close>

theorem activePaths_leak:
  "is_Finished leak_run \<and>
   reachable site (final leak_run) \<and>
   Some ''/about'' \<in> activePaths (final leak_run) \<and>
   connected (final leak_run) \<inter> rooms (final leak_run) (getRoomNameFromPath (Some ''/about'')) = {}"
proof -
  from leak_run_fields(1) have "leak_run = Finished (final leak_run)"
    by simp
  with reachable.start have "reachable site (final leak_run)"
    unfolding leak_run_def by (rule run_reachable)
  then show ?thesis
    by (simp add: leak_run_fields)
qed

text \<open>
  At \<open>two_clients\<close>, where client 0 is registered on \<^verbatim>\<open>/about\<close>: when client 1 registers
  and unregisters the path it stays active, when client 0 does it is no longer active.
\<close>

theorem joined_path_is_active_witness:
  "reachable site two_clients \<and>
   0 \<in> connected two_clients \<and> 0 \<in> rooms two_clients (getRoomNameFromPath (Some ''/about'')) \<and>
   Some ''/about'' \<in> activePaths two_clients \<and>
   (\<exists>w1. registerPath site 1 ''/about'' two_clients = (None, w1) \<and>
      Some ''/about'' \<in> activePaths (unregisterPath 1 ''/about'' w1)) \<and>
   (\<exists>w1. registerPath site 0 ''/about'' two_clients = (None, w1) \<and>
      Some ''/about'' \<notin> activePaths (unregisterPath 0 ''/about'' w1))"
proof -
  have "run site [Init ''/site'', Connection 0, Connection 1, RegisterPath 0 ''/about'']
          constructor = Finished two_clients"
    by (simp add: two_clients_def run_defs handler_defs Let_def)
  with reachable.start have h: "reachable site two_clients"
    by (rule run_reachable)
  have cached: "Map_has ''/about'' (pageResults two_clients)"
    by (simp add: two_clients_fields Map_has_def)
  from registerPath_cached [OF cached, of site 1] obtain w1
    where r1: "registerPath site 1 ''/about'' two_clients = (None, w1)" by blast
  from registerPath_cached [OF cached, of site 0] obtain w0
    where r0: "registerPath site 0 ''/about'' two_clients = (None, w0)" by blast
  from h r0 r1 joined_path_is_active [OF h] show ?thesis
    by (simp add: two_clients_fields)
qed

subsection \<open>The cached static query results and the merge of \<^verbatim>\<open>init\<close>\<close>

lemma forEach_entries:
  "forEach_staticQueryComponent e resultsMap (Some dir) cs cached w = (Inr m, w') \<Longrightarrow>
   map_of m k = Some v \<Longrightarrow>
   map_of cached k = Some v \<or>
   (\<not> Map_has k resultsMap \<and> id v = k \<and>
    (\<exists>c \<in> set cs. hash c = k \<and>
       (\<exists>dp. jsonDataPaths e (staticQueryComponent.jsonName c) = Some dp \<and>
             files e (filePath dir dp) = Some (Parses (result v)))))"
proof (induction cs arbitrary: cached w)
  case Nil
  then show ?case by simp
next
  case (Cons c cs)
  show ?case
  proof (cases "Map_has (hash c) resultsMap")
    case True
    with Cons.prems Cons.IH [of cached w] show ?thesis by auto
  next
    case False
    show ?thesis
    proof (cases "jsonDataPaths e (staticQueryComponent.jsonName c)")
      case None
      with False Cons.prems
        Cons.IH [of cached "console_log (static_error (componentPath c)) w"]
      show ?thesis by auto
    next
      case (Some dp)
      show ?thesis
      proof (cases "files e (filePath dir dp)")
        case None
        with False Some Cons.prems show ?thesis by (simp add: readCachedResults_Some)
      next
        case there: (Some f)
        show ?thesis
        proof (cases f)
          case Malformed
          with there False Some Cons.prems show ?thesis
            by (simp add: readCachedResults_Some)
        next
          case (Parses r)
          with there False Some Cons.prems
          have "forEach_staticQueryComponent e resultsMap (Some dir) cs
                  (Map_set (hash c) \<lparr>id = hash c, result = r\<rparr> cached)
                  (w\<lparr>reads := reads w @ [filePath dir dp]\<rparr>) = (Inr m, w')"
            by (simp add: readCachedResults_Some)
          from Cons.IH [OF this Cons.prems(2)] False Some there Parses show ?thesis
            by (auto simp: map_of_Map_set split: if_splits)
        qed
      qed
    qed
  qed
qed

lemma forEach_distinct:
  "forEach_staticQueryComponent e resultsMap directory cs cached w = (Inr m, w') \<Longrightarrow>
   distinct (map fst cached) \<Longrightarrow> distinct (map fst m)"
proof (induction cs arbitrary: cached w)
  case Nil
  then show ?case by simp
next
  case (Cons c cs)
  then show ?case
    by (auto simp: distinct_Map_set split: if_splits option.splits prod.splits sum.splits)
qed

text \<open>The store after \<^verbatim>\<open>init\<close>, key by key.\<close>

lemma init_staticQueryResults:
  assumes "distinct (map fst (staticQueryResults w))"
    and "init e directory w = (x, w')"
  shows "staticQueryResults w' = staticQueryResults w \<and> x \<noteq> None \<or>
         (\<exists>cached w2. x = None \<and>
            getCachedStaticQueryResults e (staticQueryResults w) (Some directory)
              (w\<lparr>programDir := Some directory\<rparr>) = (Inr cached, w2) \<and>
            (\<forall>k. map_of (staticQueryResults w') k =
               (if Map_has k (staticQueryResults w) then map_of (staticQueryResults w) k
                else map_of cached k)))"
proof -
  let ?w1 = "w\<lparr>programDir := Some directory\<rparr>"
  obtain y w2 where g: "getCachedStaticQueryResults e (staticQueryResults w) (Some directory) ?w1
      = (y, w2)"
    by (cases "getCachedStaticQueryResults e (staticQueryResults w) (Some directory) ?w1")
  then have loop: "forEach_staticQueryComponent e (staticQueryResults w) (Some directory)
      (staticQueryComponents e) [] ?w1 = (y, w2)"
    by (simp add: getCachedStaticQueryResults_def)
  from forEach_core [OF loop] have core: "staticQueryResults w2 = staticQueryResults w"
    by (simp add: same_core_def)
  show ?thesis
  proof (cases y)
    case (Inl err)
    with assms(2) g core show ?thesis by (auto simp: init_def Let_def)
  next
    case (Inr cached)
    with assms(2) g core have x: "x = None"
      and new: "staticQueryResults w' = Map_new (staticQueryResults w @ cached)"
      by (auto simp: init_def Let_def)
    from forEach_distinct [OF loop [unfolded Inr]] have dc: "distinct (map fst cached)"
      by simp
    have fresh: "map_of cached k = None" if "Map_has k (staticQueryResults w)" for k
    proof (cases "map_of cached k")
      case None
      then show ?thesis .
    next
      case (Some v)
      from forEach_entries [OF loop [unfolded Inr] Some] that show ?thesis by simp
    qed
    have "map_of (staticQueryResults w') k =
            (if Map_has k (staticQueryResults w) then map_of (staticQueryResults w) k
             else map_of cached k)" for k
      using fresh [of k]
      by (auto simp: new map_of_Map_new map_of_rev_distinct [OF dc]
            map_of_rev_distinct [OF assms(1)] Map_has_def map_add_def
          split: option.splits)
    with x g Inr show ?thesis by blast
  qed
qed

text \<open>
  Claim C7. The merge of \<^verbatim>\<open>init\<close> leaves every entry that the store had before as it is,
  and an entry under a new key is one that the loader has read for a component with that
  hash: its \<^verbatim>\<open>id\<close> is the key and its \<^verbatim>\<open>result\<close> is the content of the component's
  artifact. The keys of a \<^verbatim>\<open>Map\<close> are distinct.
\<close>

theorem init_merge_keeps_fresh:
  assumes "distinct (map fst (staticQueryResults w))"
    and "init e directory w = (x, w')"
  shows "(\<forall>k. Map_has k (staticQueryResults w) \<longrightarrow>
            map_of (staticQueryResults w') k = map_of (staticQueryResults w) k) \<and>
         (\<forall>k v. map_of (staticQueryResults w') k = Some v \<and> \<not> Map_has k (staticQueryResults w) \<longrightarrow>
            id v = k \<and>
            (\<exists>c \<in> set (staticQueryComponents e). hash c = k \<and>
               (\<exists>dp. jsonDataPaths e (staticQueryComponent.jsonName c) = Some dp \<and>
                  files e (filePath directory dp) = Some (Parses (result v)))))"
proof -
  from init_staticQueryResults [OF assms]
  consider "staticQueryResults w' = staticQueryResults w"
    | cached w2 where
        "getCachedStaticQueryResults e (staticQueryResults w) (Some directory)
              (w\<lparr>programDir := Some directory\<rparr>) = (Inr cached, w2)"
        "\<And>k. map_of (staticQueryResults w') k =
               (if Map_has k (staticQueryResults w) then map_of (staticQueryResults w) k
                else map_of cached k)"
    by blast
  then show ?thesis
  proof cases
    case 1
    then show ?thesis by (auto simp: Map_has_def)
  next
    case 2
    have "id v = k \<and>
            (\<exists>c \<in> set (staticQueryComponents e). hash c = k \<and>
               (\<exists>dp. jsonDataPaths e (staticQueryComponent.jsonName c) = Some dp \<and>
                  files e (filePath directory dp) = Some (Parses (result v))))"
      if "map_of (staticQueryResults w') k = Some v" "\<not> Map_has k (staticQueryResults w)" for k v
    proof -
      from that 2(2) [of k] have "map_of cached k = Some v" by simp
      from forEach_entries [OF 2(1) [unfolded getCachedStaticQueryResults_def] this]
      show ?thesis by simp
    qed
    with 2(2) show ?thesis by auto
  qed
qed

lemma fresh_header_init:
  "fst (init site ''/site'' fresh_header) = None"
  "map_of (staticQueryResults fresh_header) ''hash1'' = Some \<lparr>id = ''hash1'', result = JString ''fresh''\<rparr>"
  "distinct (map fst (staticQueryResults fresh_header))"
  "map fst (staticQueryResults (snd (init site ''/site'' fresh_header))) = [''hash1'', ''hash3'']"
  by (simp_all add: fresh_header_def run_defs handler_defs Let_def)

theorem init_merge_keeps_fresh_witness:
  "distinct (map fst (staticQueryResults fresh_header)) \<and>
   fst (init site ''/site'' fresh_header) = None \<and>
   map_of (staticQueryResults (snd (init site ''/site'' fresh_header))) ''hash1'' =
     Some \<lparr>id = ''hash1'', result = JString ''fresh''\<rparr> \<and>
   (\<exists>v. map_of (staticQueryResults (snd (init site ''/site'' fresh_header))) ''hash3'' = Some v \<and>
      id v = ''hash3'' \<and> files site (filePath ''/site'' ''f1'') = Some (Parses (result v)))"
proof -
  have h1: "distinct (map fst (staticQueryResults fresh_header))"
    by (rule fresh_header_init)
  have h2: "init site ''/site'' fresh_header =
      (fst (init site ''/site'' fresh_header), snd (init site ''/site'' fresh_header))"
    by simp
  note merge = init_merge_keeps_fresh [OF h1 h2]
  have old: "Map_has ''hash1'' (staticQueryResults fresh_header)"
    and new: "\<not> Map_has ''hash3'' (staticQueryResults fresh_header)"
    by (simp_all add: fresh_header_def emitStaticQueryData_def constructor_def Map_has_def)
  from merge old have kept:
    "map_of (staticQueryResults (snd (init site ''/site'' fresh_header))) ''hash1'' =
     Some \<lparr>id = ''hash1'', result = JString ''fresh''\<rparr>"
    by (simp add: fresh_header_init)
  have "''hash3'' \<in> fst ` set (staticQueryResults (snd (init site ''/site'' fresh_header)))"
    using fresh_header_init(4) by (metis list.set_intros(1,2) list.set_map)
  then obtain v where
    v: "map_of (staticQueryResults (snd (init site ''/site'' fresh_header))) ''hash3'' = Some v"
    by (metis domD dom_map_of_conv_image_fst)
  from merge v new obtain c dp where "id v = ''hash3''" "c \<in> set (staticQueryComponents site)"
    "hash c = ''hash3''" "jsonDataPaths site (staticQueryComponent.jsonName c) = Some dp"
    "files site (filePath ''/site'' dp) = Some (Parses (result v))"
    by blast
  moreover from this have "dp = ''f1''"
    by (auto simp: site_def)
  ultimately show ?thesis
    using h1 kept v fresh_header_init(1) by blast
qed

lemma forEach_all_valid:
  assumes "\<forall>c \<in> set cs. \<forall>dp. \<not> Map_has (hash c) resultsMap \<longrightarrow>
             jsonDataPaths e (staticQueryComponent.jsonName c) = Some dp \<longrightarrow>
             (\<exists>v. files e (filePath dir dp) = Some (Parses v))"
  shows "\<exists>m w'. forEach_staticQueryComponent e resultsMap (Some dir) cs cached w = (Inr m, w') \<and>
           (\<forall>k. Map_has k cached \<longrightarrow> Map_has k m) \<and>
           set (console w) \<subseteq> set (console w') \<and> set (reads w) \<subseteq> set (reads w') \<and>
           (\<forall>c \<in> set cs. \<not> Map_has (hash c) resultsMap \<longrightarrow>
              (case jsonDataPaths e (staticQueryComponent.jsonName c) of
                 None \<Rightarrow> static_error (componentPath c) \<in> set (console w')
               | Some dp \<Rightarrow> Map_has (hash c) m \<and> filePath dir dp \<in> set (reads w')))"
  using assms
proof (induction cs arbitrary: cached w)
  case Nil
  then show ?case by simp
next
  case (Cons c cs)
  then have valid: "\<forall>c \<in> set cs. \<forall>dp. \<not> Map_has (hash c) resultsMap \<longrightarrow>
             jsonDataPaths e (staticQueryComponent.jsonName c) = Some dp \<longrightarrow>
             (\<exists>v. files e (filePath dir dp) = Some (Parses v))" by simp
  show ?case
  proof (cases "Map_has (hash c) resultsMap")
    case True
    with Cons.IH [OF valid, of cached w] show ?thesis by simp
  next
    case False
    show ?thesis
    proof (cases "jsonDataPaths e (staticQueryComponent.jsonName c)")
      case None
      from Cons.IH [OF valid, of cached "console_log (static_error (componentPath c)) w"]
      obtain m w' where
        "forEach_staticQueryComponent e resultsMap (Some dir) cs cached
           (console_log (static_error (componentPath c)) w) = (Inr m, w')"
        "\<forall>k. Map_has k cached \<longrightarrow> Map_has k m"
        "set (console (console_log (static_error (componentPath c)) w)) \<subseteq> set (console w')"
        "set (reads (console_log (static_error (componentPath c)) w)) \<subseteq> set (reads w')"
        "\<forall>c \<in> set cs. \<not> Map_has (hash c) resultsMap \<longrightarrow>
              (case jsonDataPaths e (staticQueryComponent.jsonName c) of
                 None \<Rightarrow> static_error (componentPath c) \<in> set (console w')
               | Some dp \<Rightarrow> Map_has (hash c) m \<and> filePath dir dp \<in> set (reads w'))"
        by blast
      with False None show ?thesis by (simp add: console_log_def)
    next
      case (Some dp)
      with False Cons.prems obtain v where v: "files e (filePath dir dp) = Some (Parses v)"
        by auto
      from Cons.IH [OF valid, of "Map_set (hash c) \<lparr>id = hash c, result = v\<rparr> cached"
          "w\<lparr>reads := reads w @ [filePath dir dp]\<rparr>"]
      obtain m w' where
        "forEach_staticQueryComponent e resultsMap (Some dir) cs
           (Map_set (hash c) \<lparr>id = hash c, result = v\<rparr> cached)
           (w\<lparr>reads := reads w @ [filePath dir dp]\<rparr>) = (Inr m, w')"
        "\<forall>k. Map_has k (Map_set (hash c) \<lparr>id = hash c, result = v\<rparr> cached) \<longrightarrow> Map_has k m"
        "set (console (w\<lparr>reads := reads w @ [filePath dir dp]\<rparr>)) \<subseteq> set (console w')"
        "set (reads (w\<lparr>reads := reads w @ [filePath dir dp]\<rparr>)) \<subseteq> set (reads w')"
        "\<forall>c \<in> set cs. \<not> Map_has (hash c) resultsMap \<longrightarrow>
              (case jsonDataPaths e (staticQueryComponent.jsonName c) of
                 None \<Rightarrow> static_error (componentPath c) \<in> set (console w')
               | Some dp \<Rightarrow> Map_has (hash c) m \<and> filePath dir dp \<in> set (reads w'))"
        by blast
      with False Some v show ?thesis
        by (simp add: readCachedResults_Some Map_has_Map_set)
    qed
  qed
qed

lemma forEach_normal_valid:
  "forEach_staticQueryComponent e resultsMap (Some dir) cs cached w = (Inr m, w') \<Longrightarrow>
   c \<in> set cs \<Longrightarrow> \<not> Map_has (hash c) resultsMap \<Longrightarrow>
   jsonDataPaths e (staticQueryComponent.jsonName c) = Some dp \<Longrightarrow>
   \<exists>v. files e (filePath dir dp) = Some (Parses v)"
proof (induction cs arbitrary: cached w)
  case Nil
  then show ?case by simp
next
  case (Cons a cs)
  then show ?case
    by (auto simp: readCachedResults_Some
        split: if_splits option.splits file_content.splits)
qed

text \<open>
  Claim C3, amended. The batch \<^verbatim>\<open>getCachedStaticQueryResults\<close> returns exactly when every
  artifact it has to read exists and parses. When it returns, each component whose hash
  is not in the store yet and that has no data path has been logged and skipped, each
  one with a data path has been read and is in the result, and the result has no key
  without a data path.
\<close>

theorem getCachedStaticQueryResults_skips_unrun:
  "((\<exists>cached w'. getCachedStaticQueryResults e resultsMap (Some dir) w = (Inr cached, w')) \<longleftrightarrow>
    (\<forall>c \<in> set (staticQueryComponents e). \<forall>dp. \<not> Map_has (hash c) resultsMap \<longrightarrow>
       jsonDataPaths e (staticQueryComponent.jsonName c) = Some dp \<longrightarrow>
       (\<exists>v. files e (filePath dir dp) = Some (Parses v)))) \<and>
   (\<forall>cached w'. getCachedStaticQueryResults e resultsMap (Some dir) w = (Inr cached, w') \<longrightarrow>
      (\<forall>c \<in> set (staticQueryComponents e). \<not> Map_has (hash c) resultsMap \<longrightarrow>
         (case jsonDataPaths e (staticQueryComponent.jsonName c) of
            None \<Rightarrow> static_error (componentPath c) \<in> set (console w')
          | Some dp \<Rightarrow> Map_has (hash c) cached \<and> filePath dir dp \<in> set (reads w'))) \<and>
      (\<forall>k. Map_has k cached \<longrightarrow>
         (\<exists>c \<in> set (staticQueryComponents e). hash c = k \<and>
            jsonDataPaths e (staticQueryComponent.jsonName c) \<noteq> None)))"
proof (intro conjI iffI allI impI)
  assume "\<exists>cached w'. getCachedStaticQueryResults e resultsMap (Some dir) w = (Inr cached, w')"
  then show "\<forall>c \<in> set (staticQueryComponents e). \<forall>dp. \<not> Map_has (hash c) resultsMap \<longrightarrow>
       jsonDataPaths e (staticQueryComponent.jsonName c) = Some dp \<longrightarrow>
       (\<exists>v. files e (filePath dir dp) = Some (Parses v))"
    unfolding getCachedStaticQueryResults_def by (blast dest: forEach_normal_valid)
next
  assume "\<forall>c \<in> set (staticQueryComponents e). \<forall>dp. \<not> Map_has (hash c) resultsMap \<longrightarrow>
       jsonDataPaths e (staticQueryComponent.jsonName c) = Some dp \<longrightarrow>
       (\<exists>v. files e (filePath dir dp) = Some (Parses v))"
  from forEach_all_valid [OF this, of "[]" w]
  show "\<exists>cached w'. getCachedStaticQueryResults e resultsMap (Some dir) w = (Inr cached, w')"
    unfolding getCachedStaticQueryResults_def by blast
next
  fix cached w'
  assume g: "getCachedStaticQueryResults e resultsMap (Some dir) w = (Inr cached, w')"
  then have loop: "forEach_staticQueryComponent e resultsMap (Some dir)
      (staticQueryComponents e) [] w = (Inr cached, w')"
    by (simp add: getCachedStaticQueryResults_def)
  have valid: "\<forall>c \<in> set (staticQueryComponents e). \<forall>dp. \<not> Map_has (hash c) resultsMap \<longrightarrow>
       jsonDataPaths e (staticQueryComponent.jsonName c) = Some dp \<longrightarrow>
       (\<exists>v. files e (filePath dir dp) = Some (Parses v))"
    using loop by (blast dest: forEach_normal_valid)
  from forEach_all_valid [OF valid, of "[]" w] loop
  show "\<forall>c \<in> set (staticQueryComponents e). \<not> Map_has (hash c) resultsMap \<longrightarrow>
         (case jsonDataPaths e (staticQueryComponent.jsonName c) of
            None \<Rightarrow> static_error (componentPath c) \<in> set (console w')
          | Some dp \<Rightarrow> Map_has (hash c) cached \<and> filePath dir dp \<in> set (reads w'))"
    by auto
  fix k
  assume "Map_has k cached"
  then obtain v where "map_of cached k = Some v"
    by (auto simp: Map_has_def)
  from forEach_entries [OF loop this]
  show "\<exists>c \<in> set (staticQueryComponents e). hash c = k \<and>
            jsonDataPaths e (staticQueryComponent.jsonName c) \<noteq> None"
    by auto
qed

theorem getCachedStaticQueryResults_skips_unrun_witness:
  "\<exists>cached w'. getCachedStaticQueryResults site [] (Some ''/site'') constructor = (Inr cached, w') \<and>
     static_error ''/src/nav.js'' \<in> set (console w') \<and>
     Map_has ''hash1'' cached \<and> Map_has ''hash3'' cached \<and> \<not> Map_has ''hash2'' cached \<and>
     filePath ''/site'' ''f1'' \<in> set (reads w')"
proof -
  have valid: "\<forall>c \<in> set (staticQueryComponents site). \<forall>dp. \<not> Map_has (hash c) [] \<longrightarrow>
       jsonDataPaths site (staticQueryComponent.jsonName c) = Some dp \<longrightarrow>
       (\<exists>v. files site (filePath ''/site'' dp) = Some (Parses v))"
    by (simp add: site_def filePath_def Map_has_def)
  note skips = getCachedStaticQueryResults_skips_unrun [of site "[]" "''/site''" constructor]
  from skips valid obtain cached w'
    where g: "getCachedStaticQueryResults site [] (Some ''/site'') constructor = (Inr cached, w')"
    by blast
  note details = conjunct2 [OF skips, rule_format, OF g]
  note each = details [THEN conjunct1] and keys = details [THEN conjunct2]
  from each have "static_error ''/src/nav.js'' \<in> set (console w')"
    "Map_has ''hash1'' cached" "Map_has ''hash3'' cached"
    "filePath ''/site'' ''f1'' \<in> set (reads w')"
    by (simp_all add: site_def Map_has_def)
  moreover from keys have "\<not> Map_has ''hash2'' cached"
    by (auto simp: site_def)
  ultimately show ?thesis using g by blast
qed

text \<open>
  Claim C3 as stated fails: with the artifact of the first component missing, the batch
  ends with the exception of the read, and the artifact of the third component, which is
  there, is never read.
\<close>

theorem getCachedStaticQueryResults_aborts:
  "fst (getCachedStaticQueryResults site_without_h1 [] (Some ''/site'') constructor) =
     Inl (ENOENT ''/site/public/static/d/h1.json'') \<and>
   reads (snd (getCachedStaticQueryResults site_without_h1 [] (Some ''/site'') constructor)) =
     [''/site/public/static/d/h1.json''] \<and>
   jsonDataPaths site_without_h1 ''sq-footer'' = Some ''f1'' \<and>
   files site_without_h1 ''/site/public/static/d/f1.json'' = Some (Parses (JString ''footer''))"
  by (simp add: run_defs)

subsection \<open>Registering a path\<close>

text \<open>
  Claim C5. For a path with a page, a data path and an artifact that parses, two
  \<^verbatim>\<open>registerPath\<close> in a row read the artifact at most once: the first reads it when the
  path has no page result yet, the second never reads.
\<close>

theorem registerPath_twice_one_read:
  assumes "pages e p = Some pg"
    and "jsonDataPaths e (page.jsonName pg) = Some dataPath"
    and "programDir w = Some dir"
    and "files e (filePath dir dataPath) = Some (Parses v)"
  shows "\<exists>w1 w2. registerPath e c p w = (None, w1) \<and> registerPath e c' p w1 = (None, w2) \<and>
           reads w1 = reads w @ (if Map_has p (pageResults w) then [] else [filePath dir dataPath]) \<and>
           reads w2 = reads w1 \<and>
           length (reads w2) \<le> length (reads w) + 1"
proof -
  obtain w1 where first: "registerPath e c p w = (None, w1)"
    and cached: "Map_has p (pageResults w1)"
    and once: "reads w1 =
      reads w @ (if Map_has p (pageResults w) then [] else [filePath dir dataPath])"
    using assms
    by (cases "Map_has p (pageResults w)")
       (auto simp: registerPath_def handler_defs Let_def getCachedPageData_def
          readCachedResults_def Map_has_Map_set)
  from registerPath_cached [OF cached, of e c'] obtain w2
    where "registerPath e c' p w1 = (None, w2)" "reads w2 = reads w1" by blast
  with first once show ?thesis by auto
qed

theorem registerPath_twice_one_read_witness:
  "pages site ''/about'' = Some \<lparr>page.jsonName = ''about''\<rparr> \<and>
   jsonDataPaths site ''about'' = Some ''abc123'' \<and>
   programDir one_client = Some ''/site'' \<and>
   files site (filePath ''/site'' ''abc123'') = Some (Parses about_result) \<and>
   (\<exists>w1 w2. registerPath site 0 ''/about'' one_client = (None, w1) \<and>
      registerPath site 0 ''/about'' w1 = (None, w2) \<and>
      reads w1 = reads one_client @ [''/site/public/static/d/abc123.json''] \<and>
      reads w2 = reads w1 \<and>
      length (reads w2) \<le> length (reads one_client) + 1)"
proof -
  have h1: "pages site ''/about'' = Some \<lparr>page.jsonName = ''about''\<rparr>"
    by (simp add: site_def)
  have h2: "jsonDataPaths site (page.jsonName \<lparr>page.jsonName = ''about''\<rparr>) = Some ''abc123''"
    by (simp add: site_def)
  have h3: "programDir one_client = Some ''/site''"
    by (rule one_client_fields)
  have h4: "files site (filePath ''/site'' ''abc123'') = Some (Parses about_result)"
    by (simp add: site_def filePath_def)
  have name: "filePath ''/site'' ''abc123'' = ''/site/public/static/d/abc123.json''"
    by (simp add: filePath_def)
  show ?thesis
    using h1 h2 h3 h4 registerPath_twice_one_read [OF h1 h2 h3 h4, of 0 0]
    by (simp add: name one_client_fields Map_has_def)
qed

subsection \<open>Publishing a page result\<close>

text \<open>
  Claim C6, amended. After \<^verbatim>\<open>emitPageData\<close> of an entry, the lookup of its id in the page
  results gives exactly that entry, whatever was stored before; when the manager is
  initialised, the call sends one message with the entry as payload to all connected
  clients, and when it is not initialised, the call sends no message.
\<close>

theorem emitPageData_store_and_send:
  "Map_get (id d) (pageResults (emitPageData d w)) = Some d \<and>
   (isInitialised w \<longrightarrow>
      sent (emitPageData d w) =
        sent w @ [(connected w, \<lparr>type = pageQueryResult, payload = Some d\<rparr>)]) \<and>
   (\<not> isInitialised w \<longrightarrow> sent (emitPageData d w) = sent w)"
  by (simp add: emitPageData_def websocket_send_def Map_get_Map_set)

text \<open>
  On \<open>one_client\<close>, which is initialised, the entry is stored and sent to the client; on
  a manager that is not initialised and already holds a page result, the entry is stored
  and nothing is sent.
\<close>

theorem emitPageData_store_and_send_witness:
  "isInitialised one_client \<and>
   Map_get ''/about'' (pageResults (emitPageData \<lparr>id = ''/about'', result = about_result\<rparr> one_client))
     = Some \<lparr>id = ''/about'', result = about_result\<rparr> \<and>
   sent (emitPageData \<lparr>id = ''/about'', result = about_result\<rparr> one_client) =
     sent one_client @
     [({0}, \<lparr>type = pageQueryResult, payload = Some \<lparr>id = ''/about'', result = about_result\<rparr>\<rparr>)] \<and>
   \<not> isInitialised (emitPageData \<lparr>id = ''/blog'', result = JString ''blog''\<rparr> constructor) \<and>
   pageResults (emitPageData \<lparr>id = ''/blog'', result = JString ''blog''\<rparr> constructor) =
     [(''/blog'', Some \<lparr>id = ''/blog'', result = JString ''blog''\<rparr>)] \<and>
   Map_get ''/about''
     (pageResults (emitPageData \<lparr>id = ''/about'', result = about_result\<rparr>
        (emitPageData \<lparr>id = ''/blog'', result = JString ''blog''\<rparr> constructor)))
     = Some \<lparr>id = ''/about'', result = about_result\<rparr> \<and>
   sent (emitPageData \<lparr>id = ''/about'', result = about_result\<rparr>
           (emitPageData \<lparr>id = ''/blog'', result = JString ''blog''\<rparr> constructor)) =
     sent (emitPageData \<lparr>id = ''/blog'', result = JString ''blog''\<rparr> constructor)"
proof -
  let ?d = "\<lparr>id = ''/about'', result = about_result\<rparr>"
  let ?w = "emitPageData \<lparr>id = ''/blog'', result = JString ''blog''\<rparr> constructor"
  have h: "isInitialised one_client"
    by (rule one_client_fields)
  have n: "\<not> isInitialised ?w"
    and stored: "pageResults ?w = [(''/blog'', Some \<lparr>id = ''/blog'', result = JString ''blog''\<rparr>)]"
    by (simp_all add: emitPageData_def constructor_def)
  from h emitPageData_store_and_send [of ?d one_client]
  have "Map_get ''/about'' (pageResults (emitPageData ?d one_client)) = Some ?d"
    and "sent (emitPageData ?d one_client) =
      sent one_client @ [({0}, \<lparr>type = pageQueryResult, payload = Some ?d\<rparr>)]"
    by (simp_all add: one_client_fields)
  moreover from n emitPageData_store_and_send [of ?d ?w]
  have "Map_get ''/about'' (pageResults (emitPageData ?d ?w)) = Some ?d"
    and "sent (emitPageData ?d ?w) = sent ?w"
    by simp_all
  ultimately show ?thesis
    using h n stored by blast
qed

text \<open>
  Claim C6 as stated fails before \<^verbatim>\<open>init\<close>: on the manager just constructed,
  \<^verbatim>\<open>emitPageData\<close> stores the entry and sends nothing.
\<close>

theorem emitPageData_before_init_sends_nothing:
  "sent (emitPageData \<lparr>id = ''/about'', result = about_result\<rparr> constructor) = []"
  by (simp add: emitPageData_def constructor_def)

subsection \<open>Disconnecting\<close>

text \<open>
  Claim C10. The \<^verbatim>\<open>disconnect\<close> of a connection whose active path is still \<^verbatim>\<open>null\<close>
  raises nothing; \<^verbatim>\<open>leaveRoom(null)\<close> works on the room \<^verbatim>\<open>path-null\<close> and on no other room,
  and \<^verbatim>\<open>null\<close> is the only value it can take out of \<^verbatim>\<open>activePaths\<close>: every path is active
  afterwards exactly when it was before.
\<close>

theorem disconnect_without_registerPath:
  assumes "activePath w c = None"
  shows "fst (handle e (Disconnect c) w) = None \<and>
         getRoomNameFromPath (activePath w c) = ''path-null'' \<and>
         (\<forall>room. room \<noteq> ''path-null'' \<longrightarrow>
            rooms (disconnect c (socket_close c w)) room = rooms (socket_close c w) room) \<and>
         (\<forall>p. (Some p \<in> activePaths (snd (handle e (Disconnect c) w))) =
               (Some p \<in> activePaths w)) \<and>
         activePaths (snd (handle e (Disconnect c) w)) \<subseteq> activePaths w \<and>
         activePaths w - activePaths (snd (handle e (Disconnect c) w)) \<subseteq> {None}"
  using assms by (auto simp: handler_defs Let_def)

theorem disconnect_without_registerPath_witness:
  "activePath two_clients 1 = None \<and>
   fst (handle site (Disconnect 1) two_clients) = None \<and>
   getRoomNameFromPath (activePath two_clients 1) = ''path-null'' \<and>
   rooms (disconnect 1 (socket_close 1 two_clients)) ''path-/about'' =
     rooms (socket_close 1 two_clients) ''path-/about'' \<and>
   (\<forall>p. (Some p \<in> activePaths (snd (handle site (Disconnect 1) two_clients))) =
         (Some p \<in> activePaths two_clients)) \<and>
   Some ''/about'' \<in> activePaths (snd (handle site (Disconnect 1) two_clients)) \<and>
   activePaths two_clients - activePaths (snd (handle site (Disconnect 1) two_clients)) \<subseteq> {None}"
proof -
  have h: "activePath two_clients 1 = None"
    by (rule two_clients_fields)
  have "Some ''/about'' \<in> activePaths two_clients"
    by (simp add: two_clients_fields)
  with h disconnect_without_registerPath [OF h, of site] show ?thesis
    by simp
qed

subsection \<open>The replay on connection\<close>

text \<open>
  Claim C1, amended. On a new connection every stored shared result and then every
  stored page result is sent as a message of its own, and each of these sends goes to
  all connected clients, the new one among them. No other event of a connection replays
  the stores: \<^verbatim>\<open>registerPath\<close> sends the one page result of its path when it returns,
  \<^verbatim>\<open>unregisterPath\<close> and \<^verbatim>\<open>disconnect\<close> send nothing.
\<close>

theorem connection_replay_is_broadcast:
  "sent (snd (handle e (Connection c) w)) =
     sent w @
     map (\<lambda>(k, r). (insert c (connected w), \<lparr>type = staticQueryResult, payload = Some r\<rparr>))
       (staticQueryResults w) @
     map (\<lambda>(k, r). (insert c (connected w), \<lparr>type = pageQueryResult, payload = r\<rparr>))
       (pageResults w) \<and>
   sent (snd (handle e (RegisterPath c p) w)) =
     sent w @
     (if fst (handle e (RegisterPath c p) w) = None
      then [(connected w,
             \<lparr>type = pageQueryResult,
              payload = Map_get p (pageResults (snd (handle e (RegisterPath c p) w)))\<rparr>)]
      else []) \<and>
   sent (snd (handle e (UnregisterPath c p) w)) = sent w \<and>
   sent (snd (handle e (Disconnect c) w)) = sent w"
proof -
  have "registerPath e c p w = (fst (registerPath e c p w), snd (registerPath e c p w))"
    by simp
  from registerPath_sent [OF this]
  have "sent (snd (handle e (RegisterPath c p) w)) =
     sent w @
     (if fst (handle e (RegisterPath c p) w) = None
      then [(connected w,
             \<lparr>type = pageQueryResult,
              payload = Map_get p (pageResults (snd (handle e (RegisterPath c p) w)))\<rparr>)]
      else [])"
    by simp
  moreover have "sent (snd (handle e (UnregisterPath c p) w)) = sent w"
    by (simp add: handler_defs Let_def)
  moreover have "sent (snd (handle e (Disconnect c) w)) = sent w"
    by (simp add: handler_defs Let_def)
  moreover have "sent (snd (handle e (Connection c) w)) =
     sent w @
     map (\<lambda>(k, r). (insert c (connected w), \<lparr>type = staticQueryResult, payload = Some r\<rparr>))
       (staticQueryResults w) @
     map (\<lambda>(k, r). (insert c (connected w), \<lparr>type = pageQueryResult, payload = r\<rparr>))
       (pageResults w)"
    by (simp add: connection_sent)
  ultimately show ?thesis
    by blast
qed

lemma one_client_sent:
  "staticQueryResults one_client =
     [(''hash1'', \<lparr>id = ''hash1'', result = JString ''header''\<rparr>),
      (''hash3'', \<lparr>id = ''hash3'', result = JString ''footer''\<rparr>)]"
  "sent one_client = [({0}, header_message), ({0}, footer_message)]"
  by (simp_all add: one_client_def run_defs handler_defs Let_def header_message_def
      footer_message_def)

text \<open>
  Claim C1 as stated fails: when a second client connects, the client that was connected
  before receives the two shared results again.
\<close>

theorem connection_replay_reaches_others:
  "0 \<in> connected one_client \<and> 1 \<notin> connected one_client \<and>
   inbox 0 one_client = [header_message, footer_message] \<and>
   inbox 0 (snd (handle site (Connection 1) one_client)) =
     [header_message, footer_message, header_message, footer_message]"
proof -
  have replay: "sent (snd (handle site (Connection 1) one_client)) =
      [({0}, header_message), ({0}, footer_message),
       ({1, 0}, header_message), ({1, 0}, footer_message)]"
    by (simp add: connection_sent one_client_sent one_client_fields header_message_def
        footer_message_def)
  show ?thesis
    unfolding inbox_def replay
    by (simp add: one_client_fields one_client_sent)
qed

subsection \<open>A path without metadata\<close>

text \<open>
  Claim C2 against the code. For \<^verbatim>\<open>/missing\<close>, which is no page, \<^verbatim>\<open>registerPath\<close> raises
  \<^verbatim>\<open>TypeError\<close>. For \<^verbatim>\<open>/draft\<close>, a page without data path, it logs the error and returns,
  and the page results have the key \<^verbatim>\<open>/draft\<close> afterwards, with the value \<^verbatim>\<open>undefined\<close>.
\<close>

theorem registerPath_without_metadata:
  "pages site ''/missing'' = None \<and>
   fst (handle site (RegisterPath 0 ''/missing'') one_client) = Some TypeError \<and>
   pages site ''/draft'' = Some \<lparr>page.jsonName = ''draft''\<rparr> \<and>
   jsonDataPaths site ''draft'' = None \<and>
   fst (handle site (RegisterPath 0 ''/draft'') one_client) = None \<and>
   Map_has ''/draft'' (pageResults (snd (handle site (RegisterPath 0 ''/draft'') one_client))) \<and>
   pageResults (snd (handle site (RegisterPath 0 ''/draft'') one_client)) = [(''/draft'', None)] \<and>
   console (snd (handle site (RegisterPath 0 ''/draft'') one_client)) =
     console one_client @ [page_error ''/draft'']"
  by (simp add: one_client_def run_defs handler_defs Let_def)

subsection \<open>Registering two paths\<close>

text \<open>
  Claim C8. A connection that registers \<open>p1\<close> and then \<open>p2\<close> is in the rooms of both. Its
  \<^verbatim>\<open>disconnect\<close> handler is \<^verbatim>\<open>leaveRoom(p2)\<close>: it changes no room but the one of \<open>p2\<close>, and
  after the event every path other than \<open>p2\<close> is in \<^verbatim>\<open>activePaths\<close> exactly when it was
  before. So for \<open>p1\<close> other than \<open>p2\<close> the handler leaves the connection in the room of
  \<open>p1\<close>, and \<open>p1\<close> stays in \<^verbatim>\<open>activePaths\<close>.
\<close>

theorem registerPath_twice_then_disconnect:
  assumes "registerPath e c p1 w = (None, w1)"
    and "registerPath e c p2 w1 = (None, w2)"
  shows "c \<in> rooms w2 (getRoomNameFromPath (Some p1)) \<and>
         c \<in> rooms w2 (getRoomNameFromPath (Some p2)) \<and>
         disconnect c w2 = leaveRoom c (Some p2) w2 \<and>
         (\<forall>room. room \<noteq> getRoomNameFromPath (Some p2) \<longrightarrow>
            rooms (disconnect c w2) room = rooms w2 room) \<and>
         (\<forall>p. p \<noteq> p2 \<longrightarrow>
            (Some p \<in> activePaths (snd (handle e (Disconnect c) w2))) =
            (Some p \<in> activePaths w2)) \<and>
         (p1 \<noteq> p2 \<longrightarrow>
            c \<in> rooms (disconnect c w2) (getRoomNameFromPath (Some p1)) \<and>
            Some p1 \<in> activePaths (snd (handle e (Disconnect c) w2)))"
  using registerPath_frame [OF assms(1)] registerPath_frame [OF assms(2)]
  by (auto simp: handler_defs Let_def)

lemma about_then_blog_fields:
  "fst (registerPath site 0 ''/about'' one_client) = None"
  "fst (registerPath site 0 ''/blog'' (snd (registerPath site 0 ''/about'' one_client))) = None"
  by (simp_all add: one_client_def run_defs handler_defs Let_def)

theorem registerPath_twice_then_disconnect_witness:
  "''/about'' \<noteq> ''/blog'' \<and>
   fst (registerPath site 0 ''/about'' one_client) = None \<and>
   fst (registerPath site 0 ''/blog'' (snd (registerPath site 0 ''/about'' one_client))) = None \<and>
   0 \<in> rooms about_then_blog (getRoomNameFromPath (Some ''/about'')) \<and>
   0 \<in> rooms about_then_blog (getRoomNameFromPath (Some ''/blog'')) \<and>
   disconnect 0 about_then_blog = leaveRoom 0 (Some ''/blog'') about_then_blog \<and>
   0 \<in> rooms (disconnect 0 about_then_blog) (getRoomNameFromPath (Some ''/about'')) \<and>
   Some ''/about'' \<in> activePaths (snd (handle site (Disconnect 0) about_then_blog))"
proof -
  have h1: "''/about'' \<noteq> ''/blog''" by simp
  have h2: "registerPath site 0 ''/about'' one_client =
      (None, snd (registerPath site 0 ''/about'' one_client))"
    using about_then_blog_fields(1) by (simp add: prod_eq_iff)
  have h3: "registerPath site 0 ''/blog'' (snd (registerPath site 0 ''/about'' one_client)) =
      (None, about_then_blog)"
    using about_then_blog_fields(2) by (simp add: prod_eq_iff about_then_blog_def)
  from registerPath_twice_then_disconnect [OF h2 h3] about_then_blog_fields h1
  show ?thesis by blast
qed

subsection \<open>Results pushed before \<^verbatim>\<open>init\<close>\<close>

text \<open>
  Claim C9. Before \<^verbatim>\<open>init\<close>, \<^verbatim>\<open>emitPageData\<close> and \<^verbatim>\<open>emitStaticQueryData\<close> store the entry
  under its id and send nothing. A shared entry stored so is still the entry of its id
  after \<^verbatim>\<open>init\<close>, whatever the loader has read; and once \<^verbatim>\<open>init\<close> has returned, a client
  that connects receives the stored entry in the replay. The keys of a \<^verbatim>\<open>Map\<close> are
  distinct.
\<close>

theorem emit_before_init:
  assumes "\<not> isInitialised w" and "distinct (map fst (staticQueryResults w))"
  shows "Map_get (id d) (pageResults (emitPageData d w)) = Some d \<and>
         sent (emitPageData d w) = sent w \<and>
         map_of (staticQueryResults (emitStaticQueryData d w)) (id d) = Some d \<and>
         sent (emitStaticQueryData d w) = sent w \<and>
         (\<forall>e dir x w'. init e dir (emitStaticQueryData d w) = (x, w') \<longrightarrow>
            map_of (staticQueryResults w') (id d) = Some d) \<and>
         (\<forall>e dir w' c. init e dir (emitStaticQueryData d w) = (None, w') \<longrightarrow>
            \<lparr>type = staticQueryResult, payload = Some d\<rparr>
              \<in> set (inbox c (snd (handle e (Connection c) w')))) \<and>
         (\<forall>e dir w' c. init e dir (emitPageData d w) = (None, w') \<longrightarrow>
            \<lparr>type = pageQueryResult, payload = Some d\<rparr>
              \<in> set (inbox c (snd (handle e (Connection c) w'))))"
proof -
  let ?ws = "emitStaticQueryData d w" and ?wp = "emitPageData d w"
  have stored: "map_of (staticQueryResults ?ws) (id d) = Some d"
    and keys: "distinct (map fst (staticQueryResults ?ws))"
    and silent: "sent ?ws = sent w"
    using assms by (simp_all add: emitStaticQueryData_def map_of_Map_set distinct_Map_set)
  have page: "map_of (pageResults ?wp) (id d) = Some (Some d)" "sent ?wp = sent w"
    using assms by (simp_all add: emitPageData_def map_of_Map_set)
  have kept: "map_of (staticQueryResults w') (id d) = Some d"
    if "init e dir ?ws = (x, w')" for e dir x w'
    using init_staticQueryResults [OF keys that] stored
    by (auto simp: Map_has_def)
  have replay_static: "\<lparr>type = staticQueryResult, payload = Some d\<rparr>
      \<in> set (inbox c (snd (handle e (Connection c) w')))"
    if "init e dir ?ws = (None, w')" for e dir w' c
  proof -
    from kept [OF that] have "(id d, d) \<in> set (staticQueryResults w')"
      by (rule map_of_SomeD)
    then have "\<lparr>type = staticQueryResult, payload = Some d\<rparr> \<in>
        (\<lambda>(k, r). \<lparr>type = staticQueryResult, payload = Some r\<rparr>) ` set (staticQueryResults w')"
      by force
    then show ?thesis by (simp add: inbox_connection)
  qed
  have replay_page: "\<lparr>type = pageQueryResult, payload = Some d\<rparr>
      \<in> set (inbox c (snd (handle e (Connection c) w')))"
    if "init e dir ?wp = (None, w')" for e dir w' c
  proof -
    from init_frame [OF that] page(1) have "(id d, Some d) \<in> set (pageResults w')"
      by (simp add: map_of_SomeD)
    then have "\<lparr>type = pageQueryResult, payload = Some d\<rparr> \<in>
        (\<lambda>(k, r). \<lparr>type = pageQueryResult, payload = r\<rparr>) ` set (pageResults w')"
      by force
    then show ?thesis by (simp add: inbox_connection)
  qed
  from page have "Map_get (id d) (pageResults ?wp) = Some d"
    by (simp add: Map_get_def)
  with page(2) stored silent kept replay_static replay_page show ?thesis
    by blast
qed

theorem emit_before_init_witness:
  "\<not> isInitialised constructor \<and>
   distinct (map fst (staticQueryResults constructor)) \<and>
   sent (emitPageData \<lparr>id = ''hash1'', result = JString ''fresh''\<rparr> constructor) =
     sent constructor \<and>
   sent fresh_header = sent constructor \<and>
   fst (init site ''/site'' fresh_header) = None \<and>
   map_of (staticQueryResults (snd (init site ''/site'' fresh_header))) ''hash1'' =
     Some \<lparr>id = ''hash1'', result = JString ''fresh''\<rparr> \<and>
   \<lparr>type = staticQueryResult, payload = Some \<lparr>id = ''hash1'', result = JString ''fresh''\<rparr>\<rparr>
     \<in> set (inbox 0 (snd (handle site (Connection 0) (snd (init site ''/site'' fresh_header)))))"
proof -
  have h1: "\<not> isInitialised constructor"
    and h2: "distinct (map fst (staticQueryResults constructor))"
    by (simp_all add: constructor_def)
  have returned: "init site ''/site''
      (emitStaticQueryData \<lparr>id = ''hash1'', result = JString ''fresh''\<rparr> constructor) =
      (None, snd (init site ''/site'' fresh_header))"
    using fresh_header_init(1) by (simp add: prod_eq_iff fresh_header_def)
  from emit_before_init [OF h1 h2, of "\<lparr>id = ''hash1'', result = JString ''fresh''\<rparr>"]
    returned h1 h2 fresh_header_init(1)
  show ?thesis
    unfolding fresh_header_def by fastforce
qed

end
